theory Spec2Isabelle
  imports Complex_Main
begin

section \<open>The Controller of pymdht (src/core/controller.py)\<close>

text \<open>
  The Controller is the coordination kernel of the DHT node. Its collaborators (Querier,
  routing manager, lookup manager and lookup objects, responder and tracker, message
  factory, experimental manager) live in other modules of the repository; here they are
  parameters. The Controller's own methods are embedded as state-passing functions on a
  record of the Controller's fields.
\<close>

subsection \<open>Data\<close>

text \<open>
  Timestamps are the floats of \<^verbatim>\<open>time.time()\<close>; they are modelled as reals, so that
  instants strictly between two whole seconds exist. Identifiers (node ids and
  info-hashes, class \<^verbatim>\<open>Id\<close>) are opaque and only compared for equality.
\<close>

type_synonym time = real
type_synonym Id = nat
type_synonym address = "nat \<times> nat"
type_synonym peer = "nat \<times> nat"

datatype node = Node (node_addr: address) (node_id: Id)

datatype msg_type = QUERY | RESPONSE | ERROR | OTHER

record msg =
  mtype :: msg_type
  tid :: string
  src_node :: node
  query :: string
  all_nodes :: "node list"

datatype datagram = Datagram (data: string) (addr: address)

text \<open>An outgoing query message, before the Querier has stamped and serialised it.\<close>

datatype out_query = OutQuery (oq_kind: string) (oq_dst: node)

text \<open>
  The user's handler \<^verbatim>\<open>callback_f\<close>. The source guards every call with
  \<^verbatim>\<open>callback_f and callable(callback_f)\<close>, so the three cases are kept apart:
  \<^verbatim>\<open>None\<close>, an object that is not callable, and a callable.
\<close>

datatype callback = NoCallback | NotCallable nat | Callable nat

fun usable :: "callback \<Rightarrow> bool" where
  "usable (Callable f) = True"
| "usable NoCallback = False"
| "usable (NotCallable x) = False"

record lookup_object =
  lookup_id :: nat
  info_hash :: Id
  callback_f :: callback
  bt_port :: nat

text \<open>The record the Querier keeps for a query in flight (\<^verbatim>\<open>related_query\<close>).\<close>

record outstanding_query =
  lookup_obj :: "lookup_object option"
  dst_node :: node
  rtt :: time

text \<open>A response message built by the responder; \<^verbatim>\<open>stamp\<close> serialises it.\<close>

datatype response_msg = ResponseMsg string

text \<open>
  Every call that leaves the Controller (to a collaborator or to the user's handler) and
  every write to the peer cache is recorded, in execution order, in a trace. The trace is
  also the collaborators' state: what a collaborator returns may depend on everything
  that happened before.
\<close>

datatype event =
    ExpOnQueryReceived msg
  | ExpOnResponseReceived msg outstanding_query
  | ExpOnErrorReceived msg outstanding_query
  | ExpOnTimeout outstanding_query
  | ResponderGetResponse msg
  | RoutingOnQueryReceived node
  | RoutingOnResponseReceived node time "node list"
  | RoutingOnErrorReceived address
  | RoutingOnTimeout node
  | RoutingDoMaintenance
  | RoutingGetClosestRnodes int nat bool
  | TrackerGet Id
  | LookupMGetPeers nat Id callback nat
  | LookupMMaintenanceLookup Id
  | LookupStart lookup_object "node list"
  | LookupOnResponseReceived lookup_object msg node
  | LookupOnErrorReceived lookup_object msg address
  | LookupOnTimeout lookup_object node
  | LookupAnnounce lookup_object
  | QuerierGetRelatedQuery msg
  | QuerierGetTimeoutQueries
  | QuerierRegisterQueries "out_query list"
  | CacheAdd Id "peer list"
  | Callback callback nat "peer list option" "node option"

type_synonym history = "event list"

type_synonym cached_lookup = "time \<times> Id \<times> peer list"

record controller =
  my_id :: Id
  next_maintenance_ts :: time
  next_timeout_ts :: time
  next_main_loop_call_ts :: time
  cached_lookups :: "cached_lookup list"
  trace :: history

definition emit :: "event \<Rightarrow> controller \<Rightarrow> controller" where
  "emit e s = s\<lparr>trace := trace s @ [e]\<rparr>"

text \<open>
  The clock \<^verbatim>\<open>ptime.time\<close> is not part of the sources at hand; the current time is a
  parameter \<open>now\<close> of each entry point. By section 5 of the specification an entry point
  runs to completion and time advances only between calls, so every read of the clock
  inside one call yields \<open>now\<close>.
\<close>

definition CACHE_VALID_PERIOD :: time where
  "CACHE_VALID_PERIOD = 5 * 60"

subsection \<open>The peer cache\<close>

text \<open>The \<^verbatim>\<open>for\<close> loop of \<^verbatim>\<open>_get_cached_peers\<close>, lines 124 to 126.\<close>

fun get_cached_peers_scan :: "time \<Rightarrow> Id \<Rightarrow> cached_lookup list \<Rightarrow> peer list option" where
  "get_cached_peers_scan oldest_valid_ts ih [] = None"
| "get_cached_peers_scan oldest_valid_ts ih ((ts, cached_info_hash, peers) # rest) =
     (if ts > oldest_valid_ts \<and> ih = cached_info_hash then Some peers
      else get_cached_peers_scan oldest_valid_ts ih rest)"

definition get_cached_peers :: "time \<Rightarrow> Id \<Rightarrow> controller \<Rightarrow> peer list option" where
  "get_cached_peers now ih s =
     (let oldest_valid_ts = now - CACHE_VALID_PERIOD
      in get_cached_peers_scan oldest_valid_ts ih (cached_lookups s))"

text \<open>The \<^verbatim>\<open>while\<close> loop of \<^verbatim>\<open>_add_cache_peers\<close>, lines 130 to 132.\<close>

fun clean_up_old :: "time \<Rightarrow> cached_lookup list \<Rightarrow> cached_lookup list" where
  "clean_up_old oldest_valid_ts [] = []"
| "clean_up_old oldest_valid_ts (e # rest) =
     (if fst e < oldest_valid_ts then clean_up_old oldest_valid_ts rest else e # rest)"

text \<open>
  Lines 133 to 136 on the cleaned list. Peer lists are values here: extending the batch
  of the last entry replaces that entry by one with the longer list.
\<close>

definition extend_or_append ::
  "time \<Rightarrow> Id \<Rightarrow> peer list \<Rightarrow> cached_lookup list \<Rightarrow> cached_lookup list" where
  "extend_or_append now ih peers cl =
     (if cl \<noteq> [] \<and> fst (snd (last cl)) = ih
      then butlast cl @ [(fst (last cl), fst (snd (last cl)), snd (snd (last cl)) @ peers)]
      else cl @ [(now, ih, peers)])"

definition add_cache_peers :: "time \<Rightarrow> Id \<Rightarrow> peer list \<Rightarrow> controller \<Rightarrow> controller" where
  "add_cache_peers now ih peers s =
     (let oldest_valid_ts = now - CACHE_VALID_PERIOD;
          cl = clean_up_old oldest_valid_ts (cached_lookups s)
      in emit (CacheAdd ih peers) (s\<lparr>cached_lookups := extend_or_append now ih peers cl\<rparr>))"

text \<open>The Controller as \<^verbatim>\<open>__init__\<close> leaves it (lines 70 to 74).\<close>

definition init :: "time \<Rightarrow> Id \<Rightarrow> controller" where
  "init current_ts ident =
     \<lparr>my_id = ident, next_maintenance_ts = current_ts, next_timeout_ts = current_ts,
      next_main_loop_call_ts = current_ts, cached_lookups = [], trace = []\<rparr>"

subsection \<open>The collaborators\<close>

text \<open>
  One field per method the Controller calls on a collaborator. A method that may depend
  on the collaborator's state takes the history first. A list the source only tests for
  emptiness stands for both \<^verbatim>\<open>None\<close> and the empty list.
\<close>

record collab =
  incoming_msg :: "datagram \<Rightarrow> msg option"
  stamp :: "response_msg \<Rightarrow> string \<Rightarrow> string"
  distance_log :: "Id \<Rightarrow> Id \<Rightarrow> int"
  exp_on_query_received :: "history \<Rightarrow> msg \<Rightarrow> out_query list"
  exp_on_response_received :: "history \<Rightarrow> msg \<Rightarrow> outstanding_query \<Rightarrow> out_query list"
  exp_on_error_received :: "history \<Rightarrow> msg \<Rightarrow> outstanding_query \<Rightarrow> out_query list"
  exp_on_timeout :: "history \<Rightarrow> outstanding_query \<Rightarrow> out_query list"
  responder_get_response :: "history \<Rightarrow> msg \<Rightarrow> response_msg option"
  tracker_get :: "history \<Rightarrow> Id \<Rightarrow> peer list"
  routing_on_query_received :: "history \<Rightarrow> node \<Rightarrow> out_query list"
  routing_on_response_received :: "history \<Rightarrow> node \<Rightarrow> time \<Rightarrow> node list \<Rightarrow> out_query list"
  routing_on_error_received :: "history \<Rightarrow> address \<Rightarrow> out_query list"
  routing_on_timeout :: "history \<Rightarrow> node \<Rightarrow> out_query list"
  routing_do_maintenance :: "history \<Rightarrow> time \<times> out_query list \<times> (Id \<times> node list) option"
  routing_get_closest_rnodes :: "history \<Rightarrow> int \<Rightarrow> nat \<Rightarrow> bool \<Rightarrow> node list"
  lookup_m_get_peers :: "history \<Rightarrow> nat \<Rightarrow> Id \<Rightarrow> callback \<Rightarrow> nat \<Rightarrow> lookup_object"
  lookup_m_maintenance_lookup :: "history \<Rightarrow> Id \<Rightarrow> lookup_object"
  lookup_start :: "history \<Rightarrow> lookup_object \<Rightarrow> node list \<Rightarrow> bool \<Rightarrow> out_query list"
  lookup_on_response_received ::
    "history \<Rightarrow> lookup_object \<Rightarrow> msg \<Rightarrow> node \<Rightarrow> out_query list \<times> peer list \<times> nat \<times> bool"
  lookup_on_error_received ::
    "history \<Rightarrow> lookup_object \<Rightarrow> msg \<Rightarrow> address \<Rightarrow> out_query list \<times> nat \<times> bool"
  lookup_on_timeout :: "history \<Rightarrow> lookup_object \<Rightarrow> node \<Rightarrow> out_query list \<times> nat \<times> bool"
  lookup_announce :: "history \<Rightarrow> lookup_object \<Rightarrow> out_query list \<times> bool"
  querier_get_related_query :: "history \<Rightarrow> msg \<Rightarrow> outstanding_query option"
  querier_get_timeout_queries :: "history \<Rightarrow> time \<times> outstanding_query list"
  querier_register_queries :: "history \<Rightarrow> out_query list \<Rightarrow> time \<times> datagram list"

subsection \<open>Helpers of the Controller\<close>

text \<open>A guarded call of the user's handler: \<^verbatim>\<open>if callback_f and callable(callback_f): callback_f(...)\<close>.\<close>

definition call_if_callable ::
  "callback \<Rightarrow> nat \<Rightarrow> peer list option \<Rightarrow> node option \<Rightarrow> controller \<Rightarrow> controller" where
  "call_if_callable cb lid peers src s =
     (if usable cb then emit (Callback cb lid peers src) s else s)"

text \<open>\<^verbatim>\<open>_register_queries\<close>, lines 360 to 367.\<close>

definition register_queries ::
  "collab \<Rightarrow> out_query list \<Rightarrow> controller \<Rightarrow> datagram list \<times> controller" where
  "register_queries c queries_to_send s =
     (if queries_to_send = [] then ([], s)
      else (case querier_register_queries c (trace s) queries_to_send of
              (timeout_call_ts, datagrams_to_send) \<Rightarrow>
                (datagrams_to_send,
                 emit (QuerierRegisterQueries queries_to_send)
                   (s\<lparr>next_main_loop_call_ts :=
                        min (next_main_loop_call_ts s) timeout_call_ts\<rparr>))))"

text \<open>\<^verbatim>\<open>_announce\<close>, lines 351 to 353: the flag \<^verbatim>\<open>announce_to_myself\<close> is dropped.\<close>

definition announce :: "collab \<Rightarrow> lookup_object \<Rightarrow> controller \<Rightarrow> out_query list \<times> controller" where
  "announce c lo s =
     (case lookup_announce c (trace s) lo of
        (queries_to_send, announce_to_myself) \<Rightarrow> (queries_to_send, emit (LookupAnnounce lo) s))"

subsection \<open>Timeouts and the heartbeat\<close>

datatype error = NameError

text \<open>
  The lookup part of \<^verbatim>\<open>_on_timeout\<close>, lines 329 to 341: it returns the queries
  accumulated so far.
\<close>

definition on_timeout_lookup ::
  "collab \<Rightarrow> outstanding_query \<Rightarrow> controller \<Rightarrow> out_query list \<times> controller" where
  "on_timeout_lookup c related_query s =
     (case lookup_obj related_query of
        None \<Rightarrow> ([], s)
      | Some lo \<Rightarrow>
          (case lookup_on_timeout c (trace s) lo (dst_node related_query) of
             (lookup_queries_to_send, num_parallel_queries, lookup_done) \<Rightarrow>
               (let s1 = emit (LookupOnTimeout lo (dst_node related_query)) s
                in if lookup_done
                   then (case announce c lo
                                (call_if_callable (callback_f lo) (lookup_id lo) None None s1) of
                           (announce_queries, s2) \<Rightarrow>
                             (lookup_queries_to_send @ announce_queries, s2))
                   else (lookup_queries_to_send, s1))))"

text \<open>
  \<^verbatim>\<open>_on_timeout\<close>, lines 325 to 349. When the experimental manager returns queries, line
  347 registers them and line 348 then reads \<^verbatim>\<open>datagrams_to_send\<close>, a name that is
  neither a local of this method nor a global of the module: Python raises NameError.
\<close>

definition on_timeout ::
  "collab \<Rightarrow> outstanding_query \<Rightarrow> controller \<Rightarrow> (error + out_query list) \<times> controller" where
  "on_timeout c related_query s =
     (let exp_queries_to_send = exp_on_timeout c (trace s) related_query;
          s1 = emit (ExpOnTimeout related_query) s
      in case on_timeout_lookup c related_query s1 of
           (queries_to_send, s2) \<Rightarrow>
             (let maintenance_queries_to_send =
                    routing_on_timeout c (trace s2) (dst_node related_query);
                  s3 = emit (RoutingOnTimeout (dst_node related_query)) s2;
                  queries_to_send' =
                    (if maintenance_queries_to_send \<noteq> []
                     then queries_to_send @ maintenance_queries_to_send
                     else queries_to_send)
              in if exp_queries_to_send \<noteq> []
                 then (case register_queries c exp_queries_to_send s3 of
                         (datagrams, s4) \<Rightarrow> (Inl NameError, s4))
                 else (Inr queries_to_send', s3)))"

text \<open>The \<^verbatim>\<open>for\<close> loop of lines 172 and 173; an exception leaves the loop.\<close>

fun on_timeouts ::
  "collab \<Rightarrow> outstanding_query list \<Rightarrow> out_query list \<Rightarrow> controller
     \<Rightarrow> (error + out_query list) \<times> controller" where
  "on_timeouts c [] queries_to_send s = (Inr queries_to_send, s)"
| "on_timeouts c (q # rest) queries_to_send s =
     (case on_timeout c q s of
        (Inl e, s') \<Rightarrow> (Inl e, s')
      | (Inr qs, s') \<Rightarrow> on_timeouts c rest (queries_to_send @ qs) s')"

text \<open>The timeout sweep, lines 169 to 173.\<close>

definition timeout_sweep ::
  "collab \<Rightarrow> time \<Rightarrow> controller \<Rightarrow> (error + out_query list) \<times> controller" where
  "timeout_sweep c current_ts s =
     (if current_ts \<ge> next_timeout_ts s
      then (case querier_get_timeout_queries c (trace s) of
              (ts, timeout_queries) \<Rightarrow>
                on_timeouts c timeout_queries []
                  (emit QuerierGetTimeoutQueries (s\<lparr>next_timeout_ts := ts\<rparr>)))
      else (Inr [], s))"

text \<open>Routing table maintenance, lines 176 to 187; it returns the queries it adds.\<close>

definition maintenance_sweep ::
  "collab \<Rightarrow> time \<Rightarrow> controller \<Rightarrow> out_query list \<times> controller" where
  "maintenance_sweep c current_ts s =
     (if current_ts \<ge> next_maintenance_ts s
      then (case routing_do_maintenance c (trace s) of
              (maintenance_delay, queries, maintenance_lookup) \<Rightarrow>
                (let s1 = emit RoutingDoMaintenance s;
                     s2 = s1\<lparr>next_maintenance_ts := current_ts + maintenance_delay\<rparr>;
                     s3 = s2\<lparr>next_main_loop_call_ts :=
                               min (next_main_loop_call_ts s2) (next_maintenance_ts s2)\<rparr>
                 in case maintenance_lookup of
                      None \<Rightarrow> (queries, s3)
                    | Some (target, rnodes) \<Rightarrow>
                        (let lo = lookup_m_maintenance_lookup c (trace s3) target;
                             s4 = emit (LookupMMaintenanceLookup target) s3;
                             started = lookup_start c (trace s4) lo rnodes False;
                             s5 = emit (LookupStart lo rnodes) s4
                         in (queries @ started, s5))))
      else ([], s))"

text \<open>\<^verbatim>\<open>main_loop\<close>, lines 144 to 191.\<close>

definition main_loop ::
  "collab \<Rightarrow> time \<Rightarrow> controller \<Rightarrow> (error + time \<times> datagram list) \<times> controller" where
  "main_loop c now s =
     (let current_ts = now
      in if current_ts \<ge> next_main_loop_call_ts s
         then (case timeout_sweep c current_ts
                      (s\<lparr>next_main_loop_call_ts := current_ts + 1\<rparr>) of
                 (Inl e, s1) \<Rightarrow> (Inl e, s1)
               | (Inr timeout_queries, s1) \<Rightarrow>
                   (case maintenance_sweep c now s1 of
                      (maintenance_queries, s2) \<Rightarrow>
                        (case register_queries c (timeout_queries @ maintenance_queries) s2 of
                           (datagrams_to_send, s3) \<Rightarrow>
                             (Inr (next_main_loop_call_ts s3, datagrams_to_send), s3))))
         else (Inr (next_main_loop_call_ts s, []), s))"

subsection \<open>Starting a lookup\<close>

text \<open>Truth value of what \<^verbatim>\<open>_get_cached_peers\<close> returns: neither \<^verbatim>\<open>None\<close> nor empty.\<close>

fun truthy :: "peer list option \<Rightarrow> bool" where
  "truthy None = False"
| "truthy (Some peers) = (peers \<noteq> [])"

text \<open>Lines 99 to 120 of \<^verbatim>\<open>get_peers\<close>: the lookup proper.\<close>

definition start_lookup ::
  "collab \<Rightarrow> time \<Rightarrow> nat \<Rightarrow> Id \<Rightarrow> callback \<Rightarrow> nat \<Rightarrow> controller
     \<Rightarrow> datagram list \<times> controller" where
  "start_lookup c now lid ih cb port s =
     (let lo = lookup_m_get_peers c (trace s) lid ih cb port;
          s1 = emit (LookupMGetPeers lid ih cb port) s;
          distance = distance_log c (info_hash lo) (my_id s1);
          bootstrap_rnodes = routing_get_closest_rnodes c (trace s1) distance 0 True;
          s2 = emit (RoutingGetClosestRnodes distance 0 True) s1;
          peers = tracker_get c (trace s2) (info_hash lo);
          s3 = emit (TrackerGet (info_hash lo)) s2;
          s4 = (if peers \<noteq> []
                then call_if_callable (callback_f lo) (lookup_id lo) (Some peers) None
                       (add_cache_peers now (info_hash lo) peers s3)
                else s3);
          queries_to_send = lookup_start c (trace s4) lo bootstrap_rnodes True;
          s5 = emit (LookupStart lo bootstrap_rnodes) s4
      in register_queries c queries_to_send s5)"

text \<open>\<^verbatim>\<open>get_peers\<close>, lines 80 to 120.\<close>

definition get_peers ::
  "collab \<Rightarrow> time \<Rightarrow> nat \<Rightarrow> Id \<Rightarrow> callback \<Rightarrow> nat \<Rightarrow> bool \<Rightarrow> controller
     \<Rightarrow> datagram list \<times> controller" where
  "get_peers c now lid ih cb port use_cache s =
     (if use_cache \<and> truthy (get_cached_peers now ih s) \<and> usable cb
      then ([],
            emit (Callback cb lid None None)
              (emit (Callback cb lid (get_cached_peers now ih s) None) s))
      else start_lookup c now lid ih cb port s)"

subsection \<open>Inbound datagrams\<close>

text \<open>
  What \<^verbatim>\<open>on_datagram_received\<close> hands back for sending. Its ERROR branch (lines 301 and
  302) puts the announce queries themselves, not registered with the Querier, into the
  list of datagrams.
\<close>

datatype sendable = Dgram datagram | Unregistered out_query

text \<open>Lines 311 to 316: the maintenance and experimental queries are registered.\<close>

definition send_plugin_queries ::
  "collab \<Rightarrow> out_query list \<Rightarrow> out_query list \<Rightarrow> sendable list \<Rightarrow> controller
     \<Rightarrow> (time \<times> sendable list) \<times> controller" where
  "send_plugin_queries c maintenance_queries_to_send exp_queries_to_send datagrams_to_send s =
     (case register_queries c maintenance_queries_to_send s of
        (datagrams, s1) \<Rightarrow>
          (if exp_queries_to_send \<noteq> []
           then (case register_queries c exp_queries_to_send s1 of
                   (exp_datagrams, s2) \<Rightarrow>
                     ((next_main_loop_call_ts s2,
                       datagrams_to_send @ map Dgram datagrams @ map Dgram exp_datagrams), s2))
           else ((next_main_loop_call_ts s1, datagrams_to_send @ map Dgram datagrams), s1)))"

text \<open>The QUERY branch past the check of the source id, lines 226 to 234.\<close>

definition on_query ::
  "collab \<Rightarrow> datagram \<Rightarrow> msg \<Rightarrow> controller \<Rightarrow> (time \<times> sendable list) \<times> controller" where
  "on_query c dg m s =
     (let exp_queries_to_send = exp_on_query_received c (trace s) m;
          s1 = emit (ExpOnQueryReceived m) s;
          response_msg = responder_get_response c (trace s1) m;
          s2 = emit (ResponderGetResponse m) s1;
          datagrams_to_send =
            (case response_msg of
               None \<Rightarrow> []
             | Some r \<Rightarrow> [Dgram (Datagram (stamp c r (tid m)) (addr dg))]);
          maintenance_queries_to_send = routing_on_query_received c (trace s2) (src_node m);
          s3 = emit (RoutingOnQueryReceived (src_node m)) s2
      in send_plugin_queries c maintenance_queries_to_send exp_queries_to_send
           datagrams_to_send s3)"

text \<open>The lookup part of the RESPONSE branch, lines 246 to 270.\<close>

definition on_response_lookup ::
  "collab \<Rightarrow> time \<Rightarrow> msg \<Rightarrow> lookup_object \<Rightarrow> controller \<Rightarrow> sendable list \<times> controller" where
  "on_response_lookup c now m lo s =
     (case lookup_on_response_received c (trace s) lo m (src_node m) of
        (lookup_queries_to_send, peers, num_parallel_queries, lookup_done) \<Rightarrow>
          (case register_queries c lookup_queries_to_send
                  (emit (LookupOnResponseReceived lo m (src_node m)) s) of
             (datagrams, s1) \<Rightarrow>
               (let s2 = (if peers \<noteq> []
                          then call_if_callable (callback_f lo) (lookup_id lo) (Some peers)
                                 (Some (src_node m))
                                 (add_cache_peers now (info_hash lo) peers s1)
                          else s1)
                in if lookup_done
                   then (case announce c lo
                                (call_if_callable (callback_f lo) (lookup_id lo) None
                                   (Some (src_node m)) s2) of
                           (queries_to_send, s3) \<Rightarrow>
                             (case register_queries c queries_to_send s3 of
                                (announce_datagrams, s4) \<Rightarrow>
                                  (map Dgram datagrams @ map Dgram announce_datagrams, s4)))
                   else (map Dgram datagrams, s2))))"

text \<open>The RESPONSE branch once the related query is found, lines 242 to 275.\<close>

definition on_response ::
  "collab \<Rightarrow> time \<Rightarrow> msg \<Rightarrow> outstanding_query \<Rightarrow> controller
     \<Rightarrow> (time \<times> sendable list) \<times> controller" where
  "on_response c now m related_query s =
     (let exp_queries_to_send = exp_on_response_received c (trace s) m related_query;
          s1 = emit (ExpOnResponseReceived m related_query) s
      in case (case lookup_obj related_query of
                 None \<Rightarrow> ([], s1)
               | Some lo \<Rightarrow> on_response_lookup c now m lo s1) of
           (datagrams_to_send, s2) \<Rightarrow>
             (let maintenance_queries_to_send =
                    routing_on_response_received c (trace s2) (src_node m) (rtt related_query)
                      (all_nodes m);
                  s3 = emit (RoutingOnResponseReceived (src_node m) (rtt related_query)
                              (all_nodes m)) s2
              in send_plugin_queries c maintenance_queries_to_send exp_queries_to_send
                   datagrams_to_send s3))"

text \<open>The lookup part of the ERROR branch, lines 286 to 302.\<close>

definition on_error_lookup ::
  "collab \<Rightarrow> datagram \<Rightarrow> msg \<Rightarrow> lookup_object \<Rightarrow> controller \<Rightarrow> sendable list \<times> controller" where
  "on_error_lookup c dg m lo s =
     (case lookup_on_error_received c (trace s) lo m (addr dg) of
        (lookup_queries_to_send, num_parallel_queries, lookup_done) \<Rightarrow>
          (case register_queries c lookup_queries_to_send
                  (emit (LookupOnErrorReceived lo m (addr dg)) s) of
             (datagrams, s1) \<Rightarrow>
               (let s2 = (if lookup_done
                          then call_if_callable (callback_f lo) (lookup_id lo) None
                                 (Some (src_node m)) s1
                          else s1)
                in if lookup_done
                   then (case announce c lo s2 of
                           (announce_queries, s3) \<Rightarrow>
                             (map Dgram datagrams @ map Unregistered announce_queries, s3))
                   else (map Dgram datagrams, s2))))"

text \<open>The ERROR branch once the related query is found, lines 283 to 305.\<close>

definition on_error ::
  "collab \<Rightarrow> datagram \<Rightarrow> msg \<Rightarrow> outstanding_query \<Rightarrow> controller
     \<Rightarrow> (time \<times> sendable list) \<times> controller" where
  "on_error c dg m related_query s =
     (let exp_queries_to_send = exp_on_error_received c (trace s) m related_query;
          s1 = emit (ExpOnErrorReceived m related_query) s
      in case (case lookup_obj related_query of
                 None \<Rightarrow> ([], s1)
               | Some lo \<Rightarrow> on_error_lookup c dg m lo s1) of
           (datagrams_to_send, s2) \<Rightarrow>
             (let maintenance_queries_to_send = routing_on_error_received c (trace s2) (addr dg);
                  s3 = emit (RoutingOnErrorReceived (addr dg)) s2
              in send_plugin_queries c maintenance_queries_to_send exp_queries_to_send
                   datagrams_to_send s3))"

text \<open>
  \<^verbatim>\<open>on_datagram_received\<close>, lines 196 to 316. A datagram the message factory cannot decode
  (\<^verbatim>\<open>MsgError\<close>) is \<open>None\<close>.
\<close>

definition on_datagram_received ::
  "collab \<Rightarrow> time \<Rightarrow> datagram \<Rightarrow> controller \<Rightarrow> (time \<times> sendable list) \<times> controller" where
  "on_datagram_received c now dg s =
     (case incoming_msg c dg of
        None \<Rightarrow> ((next_main_loop_call_ts s, []), s)
      | Some m \<Rightarrow>
          (case mtype m of
             QUERY \<Rightarrow>
               (if node_id (src_node m) = my_id s
                then ((next_main_loop_call_ts s, []), s)
                else on_query c dg m s)
           | RESPONSE \<Rightarrow>
               (case querier_get_related_query c (trace s) m of
                  None \<Rightarrow> ((next_main_loop_call_ts s, []), emit (QuerierGetRelatedQuery m) s)
                | Some related_query \<Rightarrow>
                    on_response c now m related_query (emit (QuerierGetRelatedQuery m) s))
           | ERROR \<Rightarrow>
               (case querier_get_related_query c (trace s) m of
                  None \<Rightarrow> ((next_main_loop_call_ts s, []), emit (QuerierGetRelatedQuery m) s)
                | Some related_query \<Rightarrow>
                    on_error c dg m related_query (emit (QuerierGetRelatedQuery m) s))
           | OTHER \<Rightarrow> ((next_main_loop_call_ts s, []), s)))"

subsection \<open>An invariant of the cache\<close>

text \<open>
  \<^verbatim>\<open>_add_cache_peers\<close> is only ever called under \<^verbatim>\<open>if peers:\<close> (lines 110 and 259), so no
  cached batch is empty.
\<close>

definition cache_batches_nonempty :: "controller \<Rightarrow> bool" where
  "cache_batches_nonempty s = list_all (\<lambda>e. snd (snd e) \<noteq> []) (cached_lookups s)"

subsection \<open>Concrete collaborators and scenarios\<close>

text \<open>
  Collaborators to run the Controller on concrete inputs. \<open>quiet t\<close> is how quiet
  collaborators behave during a call made at time \<open>t\<close>: they decode nothing, know no
  peers and emit no queries; the Querier has no query in flight, serialises a query to a
  datagram for its destination and gives it two seconds; maintenance asks to be run
  again after 10 seconds; the lookup manager builds the lookup object from its
  arguments.
\<close>

definition serialise :: "out_query \<Rightarrow> datagram" where
  "serialise q = Datagram (oq_kind q) (node_addr (oq_dst q))"

definition quiet :: "time \<Rightarrow> collab" where
  "quiet t =
     \<lparr>incoming_msg = (\<lambda>dg. None),
      stamp = (\<lambda>r tid. (case r of ResponseMsg body \<Rightarrow> tid @ body)),
      distance_log = (\<lambda>a b. 0),
      exp_on_query_received = (\<lambda>h m. []),
      exp_on_response_received = (\<lambda>h m rq. []),
      exp_on_error_received = (\<lambda>h m rq. []),
      exp_on_timeout = (\<lambda>h rq. []),
      responder_get_response = (\<lambda>h m. None),
      tracker_get = (\<lambda>h ih. []),
      routing_on_query_received = (\<lambda>h n. []),
      routing_on_response_received = (\<lambda>h n r ns. []),
      routing_on_error_received = (\<lambda>h a. []),
      routing_on_timeout = (\<lambda>h n. []),
      routing_do_maintenance = (\<lambda>h. (10, [], None)),
      routing_get_closest_rnodes = (\<lambda>h d n b. []),
      lookup_m_get_peers =
        (\<lambda>h lid ih cb port.
           \<lparr>lookup_id = lid, info_hash = ih, callback_f = cb, bt_port = port\<rparr>),
      lookup_m_maintenance_lookup =
        (\<lambda>h target.
           \<lparr>lookup_id = 0, info_hash = target, callback_f = NoCallback, bt_port = 0\<rparr>),
      lookup_start = (\<lambda>h lo rnodes b. []),
      lookup_on_response_received = (\<lambda>h lo m n. ([], [], 0, False)),
      lookup_on_error_received = (\<lambda>h lo m a. ([], 0, False)),
      lookup_on_timeout = (\<lambda>h lo n. ([], 0, False)),
      lookup_announce = (\<lambda>h lo. ([], False)),
      querier_get_related_query = (\<lambda>h m. None),
      querier_get_timeout_queries = (\<lambda>h. (t + 1, [])),
      querier_register_queries = (\<lambda>h qs. (t + 2, map serialise qs))\<rparr>"

definition remote :: node where
  "remote = Node (9, 6881) 5"

definition ping :: out_query where
  "ping = OutQuery ''ping'' remote"

text \<open>A lookup starts with one query, to the remote node.\<close>

definition seeded :: "time \<Rightarrow> collab" where
  "seeded t = (quiet t)\<lparr>lookup_start := (\<lambda>h lo rnodes b. [ping])\<rparr>"

text \<open>
  A Controller is constructed at time 8 with id 1, and at once asked for the peers of
  info-hash 7 by lookup 42, with a callable handler. Its one query goes to the remote
  node and has until time 10 to be answered.
\<close>

definition running_lookup :: lookup_object where
  "running_lookup = \<lparr>lookup_id = 42, info_hash = 7, callback_f = Callable 1, bt_port = 6881\<rparr>"

definition searching :: controller where
  "searching = snd (get_peers (seeded 8) 8 42 7 (Callable 1) 6881 True (init 8 1))"

definition in_flight :: outstanding_query where
  "in_flight = \<lparr>lookup_obj = Some running_lookup, dst_node = remote, rtt = 1 / 2\<rparr>"

text \<open>
  The heartbeat at time 9.5: the query is still in flight, so the Querier reports no
  timeout, and 10 as the next deadline.
\<close>

definition pending :: collab where
  "pending = (quiet (19 / 2))\<lparr>querier_get_timeout_queries := (\<lambda>h. (10, []))\<rparr>"

text \<open>
  The heartbeat at time 10.5: the query has timed out, and the experimental manager
  answers the timeout with a query of its own.
\<close>

definition probing :: collab where
  "probing =
     (quiet (21 / 2))\<lparr>querier_get_timeout_queries := (\<lambda>h. (23 / 2, [in_flight])),
                      exp_on_timeout := (\<lambda>h rq. [ping])\<rparr>"

text \<open>A response from the remote node, and the datagram it comes in.\<close>

definition response :: msg where
  "response =
     \<lparr>mtype = RESPONSE, tid = ''bb'', src_node = remote, query = [], all_nodes = []\<rparr>"

definition inbound :: datagram where
  "inbound = Datagram ''d1:...'' (9, 6881)"


text \<open>The response arrives, and the Querier knows no query that it would answer.\<close>

definition unsolicited :: "time \<Rightarrow> collab" where
  "unsolicited t = (quiet t)\<lparr>incoming_msg := (\<lambda>dg. Some response)\<rparr>"

text \<open>A query from the remote node, of a kind the responder does not know.\<close>

definition strange_query :: msg where
  "strange_query =
     \<lparr>mtype = QUERY, tid = ''aa'', src_node = remote, query = ''strange'', all_nodes = []\<rparr>"

definition listening :: "time \<Rightarrow> collab" where
  "listening t = (quiet t)\<lparr>incoming_msg := (\<lambda>dg. Some strange_query)\<rparr>"

text \<open>The same, with a routing manager that pings the sender of every query it hears of.\<close>

definition pinging :: "time \<Rightarrow> collab" where
  "pinging t = (listening t)\<lparr>routing_on_query_received := (\<lambda>h n. [OutQuery ''ping'' n])\<rparr>"

text \<open>
  A Controller constructed at time 0 with id 1, whose cache received one batch for
  info-hash 7 at time 90.
\<close>

definition warm :: controller where
  "warm = add_cache_peers 90 7 [(2, 2)] (init 0 1)"

section \<open>Basic facts about the helpers\<close>

lemma emit_simps [simp]:
  "next_main_loop_call_ts (emit e s) = next_main_loop_call_ts s"
  "next_maintenance_ts (emit e s) = next_maintenance_ts s"
  "next_timeout_ts (emit e s) = next_timeout_ts s"
  "cached_lookups (emit e s) = cached_lookups s"
  "my_id (emit e s) = my_id s"
  "trace (emit e s) = trace s @ [e]"
  by (simp_all add: emit_def)

lemma call_if_callable_simps [simp]:
  "next_main_loop_call_ts (call_if_callable cb l p n s) = next_main_loop_call_ts s"
  "next_maintenance_ts (call_if_callable cb l p n s) = next_maintenance_ts s"
  "next_timeout_ts (call_if_callable cb l p n s) = next_timeout_ts s"
  "cached_lookups (call_if_callable cb l p n s) = cached_lookups s"
  "my_id (call_if_callable cb l p n s) = my_id s"
  "trace (call_if_callable cb l p n s) = trace s @ (if usable cb then [Callback cb l p n] else [])"
  by (simp_all add: call_if_callable_def)

lemma announce_simps [simp]:
  "next_main_loop_call_ts (snd (announce c lo s)) = next_main_loop_call_ts s"
  "next_maintenance_ts (snd (announce c lo s)) = next_maintenance_ts s"
  "cached_lookups (snd (announce c lo s)) = cached_lookups s"
  "trace (snd (announce c lo s)) = trace s @ [LookupAnnounce lo]"
  by (simp_all add: announce_def split: prod.splits)

lemma register_queries_simps [simp]:
  "next_maintenance_ts (snd (register_queries c qs s)) = next_maintenance_ts s"
  "cached_lookups (snd (register_queries c qs s)) = cached_lookups s"
  "trace (snd (register_queries c qs s)) =
     trace s @ (if qs = [] then [] else [QuerierRegisterQueries qs])"
  "fst (register_queries c qs s) =
     (if qs = [] then [] else snd (querier_register_queries c (trace s) qs))"
  by (simp_all add: register_queries_def split: prod.splits)

lemma register_queries_upper:
  "next_main_loop_call_ts (snd (register_queries c qs s)) \<le> next_main_loop_call_ts s"
  by (simp add: register_queries_def split: prod.splits)

lemma register_queries_lower:
  assumes "\<forall>h qs. now \<le> fst (querier_register_queries c h qs)"
    and "now \<le> next_main_loop_call_ts s"
  shows "now \<le> next_main_loop_call_ts (snd (register_queries c qs s))"
proof (cases "qs = []")
  case True
  with assms show ?thesis by (simp add: register_queries_def)
next
  case False
  obtain t d where r: "querier_register_queries c (trace s) qs = (t, d)"
    by (cases "querier_register_queries c (trace s) qs") auto
  from assms(1) have "now \<le> fst (querier_register_queries c (trace s) qs)" by blast
  with r have "now \<le> t" by simp
  with False r assms(2) show ?thesis by (simp add: register_queries_def)
qed

lemma add_cache_peers_simps [simp]:
  "next_main_loop_call_ts (add_cache_peers now ih ps s) = next_main_loop_call_ts s"
  "next_maintenance_ts (add_cache_peers now ih ps s) = next_maintenance_ts s"
  "trace (add_cache_peers now ih ps s) = trace s @ [CacheAdd ih ps]"
  "cached_lookups (add_cache_peers now ih ps s) =
     extend_or_append now ih ps (clean_up_old (now - CACHE_VALID_PERIOD) (cached_lookups s))"
  by (simp_all add: add_cache_peers_def Let_def)

lemma send_plugin_queries_simps [simp]:
  "cached_lookups (snd (send_plugin_queries c mq eq d s)) = cached_lookups s"
  "trace (snd (send_plugin_queries c mq eq d s)) =
     trace s @ (if mq = [] then [] else [QuerierRegisterQueries mq])
             @ (if eq = [] then [] else [QuerierRegisterQueries eq])"
  "snd (fst (send_plugin_queries c mq eq d s)) =
     d @ map Dgram (if mq = [] then [] else snd (querier_register_queries c (trace s) mq))
       @ map Dgram (if eq = [] then []
                    else snd (querier_register_queries c
                           (trace s @ (if mq = [] then [] else [QuerierRegisterQueries mq])) eq))"
  by (simp_all add: send_plugin_queries_def register_queries_def split: prod.splits)

section \<open>The peer cache\<close>

lemma clean_up_old_dropWhile:
  "clean_up_old t xs = dropWhile (\<lambda>e. fst e < t) xs"
  by (induction xs) auto

lemma get_cached_peers_scan_find:
  "get_cached_peers_scan (now - 300) ih xs =
     map_option (\<lambda>(ts, h, ps). ps) (find (\<lambda>(ts, h, ps). now - ts < 300 \<and> h = ih) xs)"
proof (induction xs)
  case Nil
  show ?case by simp
next
  case (Cons e xs)
  obtain ts h ps where e: "e = (ts, h, ps)" by (cases e) auto
  have "(now - 300 < ts) = (now - ts < 300)" by linarith
  with Cons show ?case by (auto simp: e)
qed

lemma get_cached_peers_find:
  "get_cached_peers now ih s =
     map_option (\<lambda>(ts, h, ps). ps)
       (find (\<lambda>(ts, h, ps). now - ts < 300 \<and> h = ih) (cached_lookups s))"
  by (simp add: get_cached_peers_def CACHE_VALID_PERIOD_def get_cached_peers_scan_find)

lemma sorted_fst_dropWhile:
  "sorted (map fst xs) \<Longrightarrow> sorted (map fst (dropWhile P xs))"
  by (induction xs) auto

lemma map_fst_butlast_last:
  "cl \<noteq> [] \<Longrightarrow> map fst (butlast cl) @ [fst (last cl)] = map fst cl"
  by (induction cl rule: rev_induct) auto

lemma sorted_extend_or_append:
  "sorted (map fst cl) \<Longrightarrow> \<forall>e \<in> set cl. fst e \<le> now \<Longrightarrow>
   sorted (map fst (extend_or_append now ih ps cl))"
  by (simp add: extend_or_append_def map_fst_butlast_last sorted_append)

text \<open>
  Claim C4, as the code has it. \<^verbatim>\<open>_get_cached_peers\<close> returns the peers of the first
  entry, in list order, that matches the info-hash and whose age \<open>now - ts\<close> is strictly
  less than 300 seconds, and \<^verbatim>\<open>None\<close> when there is no such entry. So every entry it
  returns has an age below, hence at most, 300 seconds.
\<close>

theorem get_cached_peers_first_fresh:
  "get_cached_peers now ih s =
     map_option (\<lambda>(ts, h, ps). ps)
       (find (\<lambda>(ts, h, ps). now - ts < 300 \<and> h = ih) (cached_lookups s))
   \<and> (\<forall>ps. get_cached_peers now ih s = Some ps \<longrightarrow>
         (\<exists>ts. (ts, ih, ps) \<in> set (cached_lookups s) \<and> now - ts < 300 \<and> now - ts \<le> 300))"
proof -
  have a: "get_cached_peers now ih s =
     map_option (\<lambda>(ts, h, ps). ps)
       (find (\<lambda>(ts, h, ps). now - ts < 300 \<and> h = ih) (cached_lookups s))"
    by (rule get_cached_peers_find)
  have b: "\<forall>ps. get_cached_peers now ih s = Some ps \<longrightarrow>
         (\<exists>ts. (ts, ih, ps) \<in> set (cached_lookups s) \<and> now - ts < 300 \<and> now - ts \<le> 300)"
    unfolding a by (auto simp: find_Some_iff) (metis nth_mem less_eq_real_def)
  show ?thesis using a b by blast
qed

text \<open>
  The second of three entries is the first fresh one for info-hash 7; its age is 80
  seconds.
\<close>

theorem get_cached_peers_first_fresh_witness:
  "get_cached_peers 100 7
     ((init 0 1)\<lparr>cached_lookups := [(10, 8, [(1, 1)]), (20, 7, [(2, 2)]), (30, 7, [(3, 3)])]\<rparr>)
     = Some [(2, 2)]
   \<and> (\<exists>ts. (ts, 7, [(2, 2)])
            \<in> set [(10::real, 8::nat, [(1::nat, 1::nat)]), (20, 7, [(2, 2)]), (30, 7, [(3, 3)])]
          \<and> 100 - ts < 300 \<and> 100 - ts \<le> (300::real))"
proof -
  let ?s = "(init 0 1)\<lparr>cached_lookups := [(10, 8, [(1, 1)]), (20, 7, [(2, 2)]), (30, 7, [(3, 3)])]\<rparr>"
  have h: "get_cached_peers 100 7 ?s = Some [(2, 2)]"
    by (simp add: get_cached_peers_def CACHE_VALID_PERIOD_def)
  from get_cached_peers_first_fresh [of 100 7 ?s] h
  have "\<exists>ts. (ts, 7, [(2, 2)]) \<in> set (cached_lookups ?s) \<and> 100 - ts < 300 \<and> 100 - ts \<le> (300::real)"
    by blast
  with h show ?thesis by simp
qed

text \<open>
  Claim C4 as stated says that the window is inclusive. An entry aged exactly 300 seconds
  is not returned.
\<close>

theorem get_cached_peers_boundary_counterexample:
  "(300::real) - 0 \<le> 300
   \<and> get_cached_peers 300 7 ((init 0 1)\<lparr>cached_lookups := [(0, 7, [(1, 2)])]\<rparr>) = None"
  by (simp add: get_cached_peers_def CACHE_VALID_PERIOD_def)

text \<open>
  Claim C5. \<^verbatim>\<open>_add_cache_peers\<close> drops the longest prefix of entries with a timestamp
  strictly below \<open>now - 300\<close>. If an entry remains and the last one has the same
  info-hash, the new peers are appended to its batch and its timestamp is kept;
  otherwise the entry \<open>(now, info_hash, peers)\<close> is appended. When the timestamps were
  in non-decreasing order and none lies after \<open>now\<close>, they are in non-decreasing order
  afterwards.
\<close>

theorem add_cache_peers_prune_extend_sorted:
  "cached_lookups (add_cache_peers now ih ps s) =
     (let rest = dropWhile (\<lambda>e. fst e < now - 5 * 60) (cached_lookups s)
      in if rest \<noteq> [] \<and> fst (snd (last rest)) = ih
         then butlast rest @ [(fst (last rest), ih, snd (snd (last rest)) @ ps)]
         else rest @ [(now, ih, ps)])
   \<and> (sorted (map fst (cached_lookups s)) \<and> (\<forall>e \<in> set (cached_lookups s). fst e \<le> now)
        \<longrightarrow> sorted (map fst (cached_lookups (add_cache_peers now ih ps s))))"
proof -
  have a: "cached_lookups (add_cache_peers now ih ps s) =
     extend_or_append now ih ps (dropWhile (\<lambda>e. fst e < now - 5 * 60) (cached_lookups s))"
    by (simp add: CACHE_VALID_PERIOD_def clean_up_old_dropWhile)
  have b: "sorted (map fst (cached_lookups s)) \<and> (\<forall>e \<in> set (cached_lookups s). fst e \<le> now)
        \<longrightarrow> sorted (map fst (cached_lookups (add_cache_peers now ih ps s)))"
    unfolding a
    by (auto intro!: sorted_extend_or_append sorted_fst_dropWhile dest: set_dropWhileD)
  show ?thesis using a b by (simp add: extend_or_append_def Let_def)
qed

text \<open>
  At time 500 the entry of time 0 is dropped, and the batch for info-hash 8 stored at
  time 400 is extended.
\<close>

theorem add_cache_peers_prune_extend_sorted_witness:
  "sorted (map fst [(0::real, 7::nat, [(1::nat, 1::nat)]), (400, 8, [(2, 2)])])
   \<and> list_all (\<lambda>e. fst e \<le> 500) [(0::real, 7::nat, [(1::nat, 1::nat)]), (400, 8, [(2, 2)])]
   \<and> cached_lookups (add_cache_peers 500 8 [(3, 3)]
        ((init 0 1)\<lparr>cached_lookups := [(0, 7, [(1, 1)]), (400, 8, [(2, 2)])]\<rparr>))
       = [(400, 8, [(2, 2), (3, 3)])]
   \<and> sorted (map fst (cached_lookups (add_cache_peers 500 8 [(3, 3)]
        ((init 0 1)\<lparr>cached_lookups := [(0, 7, [(1, 1)]), (400, 8, [(2, 2)])]\<rparr>))))"
proof -
  let ?s = "(init 0 1)\<lparr>cached_lookups := [(0, 7, [(1, 1)]), (400, 8, [(2, 2)])]\<rparr>"
  have h: "sorted (map fst (cached_lookups ?s)) \<and> (\<forall>e \<in> set (cached_lookups ?s). fst e \<le> 500)"
    by simp
  from add_cache_peers_prune_extend_sorted [of 500 8 "[(3, 3)]" ?s] h
  have v: "cached_lookups (add_cache_peers 500 8 [(3, 3)] ?s) = [(400, 8, [(2, 2), (3, 3)])]"
    and srt: "sorted (map fst (cached_lookups (add_cache_peers 500 8 [(3, 3)] ?s)))"
    by (simp_all add: Let_def)
  from h v srt show ?thesis by simp
qed

text \<open>No cached batch is empty: the cache starts empty and only non-empty batches are added.\<close>

lemma cache_batches_nonempty_init:
  "cache_batches_nonempty (init t ident)"
  by (simp add: cache_batches_nonempty_def init_def)

lemma extend_or_append_nonempty:
  assumes "ps \<noteq> []" and "list_all (\<lambda>e. snd (snd e) \<noteq> []) cl"
  shows "list_all (\<lambda>e. snd (snd e) \<noteq> []) (extend_or_append now ih ps cl)"
proof (cases "cl \<noteq> [] \<and> fst (snd (last cl)) = ih")
  case True
  from assms(2) have "list_all (\<lambda>e. snd (snd e) \<noteq> []) (butlast cl)"
    by (auto simp: list_all_iff dest: in_set_butlastD)
  with True assms(1) show ?thesis by (simp add: extend_or_append_def)
next
  case False
  with assms show ?thesis by (auto simp: extend_or_append_def)
qed

lemma add_cache_peers_nonempty:
  assumes "ps \<noteq> []" and "cache_batches_nonempty s"
  shows "cache_batches_nonempty (add_cache_peers now ih ps s)"
proof -
  from assms(2) have "list_all (\<lambda>e. snd (snd e) \<noteq> [])
      (clean_up_old (now - CACHE_VALID_PERIOD) (cached_lookups s))"
    by (auto simp: cache_batches_nonempty_def list_all_iff clean_up_old_dropWhile
        dest: set_dropWhileD)
  with assms(1) show ?thesis
    by (simp add: cache_batches_nonempty_def extend_or_append_nonempty)
qed

section \<open>The scenarios\<close>

lemma warm_eq:
  "warm = \<lparr>my_id = 1, next_maintenance_ts = 0, next_timeout_ts = 0,
           next_main_loop_call_ts = 0, cached_lookups = [(90, 7, [(2, 2)])],
           trace = [CacheAdd 7 [(2, 2)]]\<rparr>"
  by (simp add: warm_def add_cache_peers_def extend_or_append_def init_def emit_def Let_def)

lemma searching_eq:
  "searching = \<lparr>my_id = 1, next_maintenance_ts = 8, next_timeout_ts = 8,
                next_main_loop_call_ts = 8, cached_lookups = [],
                trace = [LookupMGetPeers 42 7 (Callable 1) 6881,
                         RoutingGetClosestRnodes 0 0 True, TrackerGet 7,
                         LookupStart running_lookup [], QuerierRegisterQueries [ping]]\<rparr>"
  by (simp add: searching_def get_peers_def get_cached_peers_def start_lookup_def
      register_queries_def seeded_def quiet_def running_lookup_def init_def emit_def Let_def)

section \<open>Starting a lookup\<close>

text \<open>
  Claim C3, as the code has it. When \<^verbatim>\<open>get_peers\<close> is called with \<^verbatim>\<open>use_cache\<close> set and a
  callable handler, and the cache holds an entry for the info-hash whose age \<open>now - ts\<close>
  is strictly less than 300 seconds, the
  handler is called exactly twice, first with the peers of the first such entry and
  then with \<^verbatim>\<open>None\<close> for the peers; no datagram is returned; and nothing else happens: no
  lookup object is created, and the Controller's fields keep their values.
\<close>

theorem get_peers_cache_hit:
  assumes "use_cache" and "usable cb"
    and "(ts, ih, ps) \<in> set (cached_lookups s)" and "now - ts < 300"
    and "cache_batches_nonempty s"
  shows "\<exists>ts' cached.
           find (\<lambda>(t, h, p). now - t < 300 \<and> h = ih) (cached_lookups s) = Some (ts', ih, cached)
         \<and> get_peers c now lid ih cb port use_cache s =
             ([], s\<lparr>trace := trace s @ [Callback cb lid (Some cached) None,
                                        Callback cb lid None None]\<rparr>)"
proof -
  let ?P = "\<lambda>(t::time, h::Id, p::peer list). now - t < 300 \<and> h = ih"
  from assms(3,4) have "\<exists>x \<in> set (cached_lookups s). ?P x" by force
  then obtain e where f: "find ?P (cached_lookups s) = Some e"
    by (cases "find ?P (cached_lookups s)") (auto simp: find_None_iff)
  then have mem: "e \<in> set (cached_lookups s)" and pe: "?P e"
    by (auto simp: find_Some_iff in_set_conv_nth)
  obtain ts' h cached where e: "e = (ts', h, cached)" by (cases e) auto
  from pe e have h: "h = ih" by simp
  from assms(5) mem e have ne: "cached \<noteq> []"
    by (auto simp: cache_batches_nonempty_def list_all_iff)
  from f e h have g: "get_cached_peers now ih s = Some cached"
    by (simp add: get_cached_peers_find)
  with assms(1,2) ne have "get_peers c now lid ih cb port use_cache s =
             ([], s\<lparr>trace := trace s @ [Callback cb lid (Some cached) None,
                                        Callback cb lid None None]\<rparr>)"
    by (simp add: get_peers_def emit_def)
  with f e h show ?thesis by blast
qed

text \<open>Scenario S1 of the specification, ten seconds after the batch was cached.\<close>

theorem get_peers_cache_hit_witness:
  "usable (Callable 1) \<and> (90, 7, [(2, 2)]) \<in> set (cached_lookups warm)
   \<and> (100::real) - 90 < 300 \<and> cache_batches_nonempty warm
   \<and> get_peers (quiet 100) 100 42 7 (Callable 1) 6881 True warm =
       ([], warm\<lparr>trace := [CacheAdd 7 [(2, 2)],
                           Callback (Callable 1) 42 (Some [(2, 2)]) None,
                           Callback (Callable 1) 42 None None]\<rparr>)"
proof -
  have h: "True" "usable (Callable 1)" "(90, 7, [(2, 2)]) \<in> set (cached_lookups warm)"
    "(100::real) - 90 < 300" "cache_batches_nonempty warm"
    by (simp_all add: warm_eq cache_batches_nonempty_def)
  have f: "find (\<lambda>(t, h, p). 100 - t < 300 \<and> h = 7) (cached_lookups warm)
             = Some (90, 7, [(2, 2)])"
    by (simp add: warm_eq)
  from get_peers_cache_hit [OF h, of "quiet 100" 42 6881] f
  have "get_peers (quiet 100) 100 42 7 (Callable 1) 6881 True warm =
       ([], warm\<lparr>trace := trace warm @ [Callback (Callable 1) 42 (Some [(2, 2)]) None,
                           Callback (Callable 1) 42 None None]\<rparr>)"
    by auto
  with h show ?thesis by (simp add: warm_eq)
qed

text \<open>
  Claim C3 as stated fails at the end of the window. The cached batch is exactly 300
  seconds old, which the inclusive window of the specification counts as not expired;
  \<^verbatim>\<open>use_cache\<close> is set and the handler is callable. The cache path is not taken: the
  handler is not called, a lookup object is created, the lookup is started and its
  query is returned for sending.
\<close>

theorem get_peers_cache_hit_boundary_counterexample:
  "usable (Callable 1) \<and> (90, 7, [(2, 2)]) \<in> set (cached_lookups warm)
   \<and> (390::real) - 90 \<le> 300
   \<and> fst (get_peers (seeded 390) 390 42 7 (Callable 1) 6881 True warm)
       = [Datagram ''ping'' (9, 6881)]
   \<and> trace (snd (get_peers (seeded 390) 390 42 7 (Callable 1) 6881 True warm)) =
       [CacheAdd 7 [(2, 2)],
        LookupMGetPeers 42 7 (Callable 1) 6881, RoutingGetClosestRnodes 0 0 True, TrackerGet 7,
        LookupStart running_lookup [], QuerierRegisterQueries [ping]]"
  by (simp add: get_peers_def get_cached_peers_def CACHE_VALID_PERIOD_def start_lookup_def
      register_queries_def seeded_def quiet_def warm_eq running_lookup_def ping_def remote_def
      serialise_def emit_def Let_def)

text \<open>
  Claim C10. When the handler is \<^verbatim>\<open>None\<close> or not callable, \<^verbatim>\<open>get_peers\<close> does not take the
  cache path, whatever \<^verbatim>\<open>use_cache\<close> and the cache are. The events of the call are, in this
  order: the lookup manager creates the lookup object, the routing manager and the
  tracker are asked, the tracker's peers (if any) are cached and handed to the handler
  of the lookup object (if that is callable), the lookup is started, and its queries (if
  any) are registered; the datagrams returned are those of this registration. The
  handler that was passed in is never called.
\<close>

theorem get_peers_without_callable_handler:
  assumes "\<not> usable cb"
  shows "let lo = lookup_m_get_peers c (trace s) lid ih cb port;
             h1 = trace s @ [LookupMGetPeers lid ih cb port];
             d = distance_log c (info_hash lo) (my_id s);
             rnodes = routing_get_closest_rnodes c h1 d 0 True;
             h2 = h1 @ [RoutingGetClosestRnodes d 0 True];
             peers = tracker_get c h2 (info_hash lo);
             h3 = h2 @ [TrackerGet (info_hash lo)]
                  @ (if peers = [] then []
                     else CacheAdd (info_hash lo) peers
                          # (if usable (callback_f lo)
                             then [Callback (callback_f lo) (lookup_id lo) (Some peers) None]
                             else []));
             qs = lookup_start c h3 lo rnodes True;
             h4 = h3 @ [LookupStart lo rnodes]
         in fst (get_peers c now lid ih cb port use_cache s)
              = (if qs = [] then [] else snd (querier_register_queries c h4 qs))
          \<and> trace (snd (get_peers c now lid ih cb port use_cache s))
              = h4 @ (if qs = [] then [] else [QuerierRegisterQueries qs])
          \<and> (\<forall>l p n. Callback cb l p n
                 \<notin> set (drop (length (trace s))
                            (trace (snd (get_peers c now lid ih cb port use_cache s)))))"
proof -
  from assms have g: "get_peers c now lid ih cb port use_cache s = start_lookup c now lid ih cb port s"
    by (simp add: get_peers_def)
  from assms show ?thesis
    unfolding g by (auto simp: start_lookup_def Let_def)
qed

text \<open>
  The cache holds a fresh batch for the info-hash and \<^verbatim>\<open>use_cache\<close> is set, but the
  handler is \<^verbatim>\<open>None\<close>: a lookup is started and its one query is sent.
\<close>

theorem get_peers_without_callable_handler_witness:
  "\<not> usable NoCallback \<and> get_cached_peers 100 7 warm = Some [(2, 2)]
   \<and> fst (get_peers (seeded 100) 100 42 7 NoCallback 6881 True warm)
       = [Datagram ''ping'' (9, 6881)]
   \<and> trace (snd (get_peers (seeded 100) 100 42 7 NoCallback 6881 True warm)) =
       [CacheAdd 7 [(2, 2)],
        LookupMGetPeers 42 7 NoCallback 6881, RoutingGetClosestRnodes 0 0 True, TrackerGet 7,
        LookupStart \<lparr>lookup_id = 42, info_hash = 7, callback_f = NoCallback, bt_port = 6881\<rparr> [],
        QuerierRegisterQueries [ping]]"
proof -
  have h: "\<not> usable NoCallback" by simp
  have g: "get_cached_peers 100 7 warm = Some [(2, 2)]"
    by (simp add: get_cached_peers_def CACHE_VALID_PERIOD_def warm_eq)
  from get_peers_without_callable_handler [OF h, of "seeded 100" warm 42 7 6881 100 True]
  have "fst (get_peers (seeded 100) 100 42 7 NoCallback 6881 True warm)
       = [Datagram ''ping'' (9, 6881)]
   \<and> trace (snd (get_peers (seeded 100) 100 42 7 NoCallback 6881 True warm)) =
       [CacheAdd 7 [(2, 2)],
        LookupMGetPeers 42 7 NoCallback 6881, RoutingGetClosestRnodes 0 0 True, TrackerGet 7,
        LookupStart \<lparr>lookup_id = 42, info_hash = 7, callback_f = NoCallback, bt_port = 6881\<rparr> [],
        QuerierRegisterQueries [ping]]"
    by (simp add: Let_def seeded_def quiet_def warm_eq ping_def remote_def serialise_def)
  with h g show ?thesis by simp
qed

section \<open>The heartbeat\<close>

lemma on_timeout_lookup_simps [simp]:
  "next_main_loop_call_ts (snd (on_timeout_lookup c rq s)) = next_main_loop_call_ts s"
  "next_maintenance_ts (snd (on_timeout_lookup c rq s)) = next_maintenance_ts s"
  "cached_lookups (snd (on_timeout_lookup c rq s)) = cached_lookups s"
  by (simp_all add: on_timeout_lookup_def Let_def split_def split: option.splits)

lemma on_timeout_simps [simp]:
  "next_maintenance_ts (snd (on_timeout c rq s)) = next_maintenance_ts s"
  "cached_lookups (snd (on_timeout c rq s)) = cached_lookups s"
  by (simp_all add: on_timeout_def Let_def split_def)

lemma on_timeout_experimental_raises:
  "exp_on_timeout c (trace s) rq \<noteq> [] \<Longrightarrow> fst (on_timeout c rq s) = Inl NameError"
  by (simp add: on_timeout_def Let_def split_def)

lemma on_timeout_upper:
  "next_main_loop_call_ts (snd (on_timeout c rq s)) \<le> next_main_loop_call_ts s"
proof -
  let ?s3 = "emit (RoutingOnTimeout (dst_node rq))
               (snd (on_timeout_lookup c rq (emit (ExpOnTimeout rq) s)))"
  have "next_main_loop_call_ts (snd (register_queries c (exp_on_timeout c (trace s) rq) ?s3))
          \<le> next_main_loop_call_ts ?s3"
    by (rule register_queries_upper)
  then show ?thesis by (simp add: on_timeout_def Let_def split_def)
qed

lemma on_timeout_lower:
  assumes "\<forall>h qs. now \<le> fst (querier_register_queries c h qs)"
    and "now \<le> next_main_loop_call_ts s"
  shows "now \<le> next_main_loop_call_ts (snd (on_timeout c rq s))"
proof -
  let ?s3 = "emit (RoutingOnTimeout (dst_node rq))
               (snd (on_timeout_lookup c rq (emit (ExpOnTimeout rq) s)))"
  from assms(2) have "now \<le> next_main_loop_call_ts ?s3" by simp
  with assms(1)
  have "now \<le> next_main_loop_call_ts
                 (snd (register_queries c (exp_on_timeout c (trace s) rq) ?s3))"
    by (rule register_queries_lower)
  with assms(2) show ?thesis by (simp add: on_timeout_def Let_def split_def)
qed

lemma on_timeouts_maintenance [simp]:
  "next_maintenance_ts (snd (on_timeouts c tqs acc s)) = next_maintenance_ts s"
proof (induction tqs arbitrary: acc s)
  case Nil
  show ?case by simp
next
  case (Cons q rest)
  obtain r s' where o: "on_timeout c q s = (r, s')" by (cases "on_timeout c q s") auto
  have m: "next_maintenance_ts s' = next_maintenance_ts s"
    using on_timeout_simps(1) [of c q s] o by simp
  show ?case
  proof (cases r)
    case (Inl e)
    with o m show ?thesis by simp
  next
    case (Inr qs)
    have "next_maintenance_ts (snd (on_timeouts c rest (acc @ qs) s')) = next_maintenance_ts s'"
      by (rule Cons.IH)
    with o m Inr show ?thesis by simp
  qed
qed

lemma on_timeouts_cache [simp]:
  "cached_lookups (snd (on_timeouts c tqs acc s)) = cached_lookups s"
proof (induction tqs arbitrary: acc s)
  case Nil
  show ?case by simp
next
  case (Cons q rest)
  obtain r s' where o: "on_timeout c q s = (r, s')" by (cases "on_timeout c q s") auto
  have m: "cached_lookups s' = cached_lookups s"
    using on_timeout_simps(2) [of c q s] o by simp
  show ?case
  proof (cases r)
    case (Inl e)
    with o m show ?thesis by simp
  next
    case (Inr qs)
    have "cached_lookups (snd (on_timeouts c rest (acc @ qs) s')) = cached_lookups s'"
      by (rule Cons.IH)
    with o m Inr show ?thesis by simp
  qed
qed

lemma on_timeouts_upper:
  "next_main_loop_call_ts (snd (on_timeouts c tqs acc s)) \<le> next_main_loop_call_ts s"
proof (induction tqs arbitrary: acc s)
  case Nil
  show ?case by simp
next
  case (Cons q rest)
  obtain r s' where o: "on_timeout c q s = (r, s')" by (cases "on_timeout c q s") auto
  have "next_main_loop_call_ts (snd (on_timeout c q s)) \<le> next_main_loop_call_ts s"
    by (rule on_timeout_upper)
  with o have u: "next_main_loop_call_ts s' \<le> next_main_loop_call_ts s" by simp
  show ?case
  proof (cases r)
    case (Inl e)
    with o u show ?thesis by simp
  next
    case (Inr qs)
    have "next_main_loop_call_ts (snd (on_timeouts c rest (acc @ qs) s'))
            \<le> next_main_loop_call_ts s'" by (rule Cons.IH)
    with o u Inr show ?thesis by simp
  qed
qed

lemma on_timeouts_lower:
  assumes "\<forall>h qs. now \<le> fst (querier_register_queries c h qs)"
  shows "now \<le> next_main_loop_call_ts s \<Longrightarrow>
         now \<le> next_main_loop_call_ts (snd (on_timeouts c tqs acc s))"
proof (induction tqs arbitrary: acc s)
  case Nil
  then show ?case by simp
next
  case (Cons q rest)
  obtain r s' where o: "on_timeout c q s = (r, s')" by (cases "on_timeout c q s") auto
  from assms Cons.prems have "now \<le> next_main_loop_call_ts (snd (on_timeout c q s))"
    by (rule on_timeout_lower)
  with o have u: "now \<le> next_main_loop_call_ts s'" by simp
  show ?case
  proof (cases r)
    case (Inl e)
    with o u show ?thesis by simp
  next
    case (Inr qs)
    from u have "now \<le> next_main_loop_call_ts (snd (on_timeouts c rest (acc @ qs) s'))"
      by (rule Cons.IH)
    with o Inr show ?thesis by simp
  qed
qed

lemma timeout_sweep_simps [simp]:
  "next_maintenance_ts (snd (timeout_sweep c t s)) = next_maintenance_ts s"
  "cached_lookups (snd (timeout_sweep c t s)) = cached_lookups s"
  by (simp_all add: timeout_sweep_def split_def)

lemma timeout_sweep_upper:
  "next_main_loop_call_ts (snd (timeout_sweep c t s)) \<le> next_main_loop_call_ts s"
proof (cases "t \<ge> next_timeout_ts s")
  case False
  then show ?thesis by (simp add: timeout_sweep_def)
next
  case True
  obtain ts tqs where g: "querier_get_timeout_queries c (trace s) = (ts, tqs)"
    by (cases "querier_get_timeout_queries c (trace s)") auto
  have "next_main_loop_call_ts
          (snd (on_timeouts c tqs [] (emit QuerierGetTimeoutQueries (s\<lparr>next_timeout_ts := ts\<rparr>))))
        \<le> next_main_loop_call_ts (emit QuerierGetTimeoutQueries (s\<lparr>next_timeout_ts := ts\<rparr>))"
    by (rule on_timeouts_upper)
  with True g show ?thesis by (simp add: timeout_sweep_def)
qed

lemma timeout_sweep_lower:
  assumes "\<forall>h qs. now \<le> fst (querier_register_queries c h qs)"
    and "now \<le> next_main_loop_call_ts s"
  shows "now \<le> next_main_loop_call_ts (snd (timeout_sweep c t s))"
proof (cases "t \<ge> next_timeout_ts s")
  case False
  with assms(2) show ?thesis by (simp add: timeout_sweep_def)
next
  case True
  obtain ts tqs where g: "querier_get_timeout_queries c (trace s) = (ts, tqs)"
    by (cases "querier_get_timeout_queries c (trace s)") auto
  from assms(2)
  have "now \<le> next_main_loop_call_ts (emit QuerierGetTimeoutQueries (s\<lparr>next_timeout_ts := ts\<rparr>))"
    by simp
  with assms(1) have "now \<le> next_main_loop_call_ts
          (snd (on_timeouts c tqs [] (emit QuerierGetTimeoutQueries (s\<lparr>next_timeout_ts := ts\<rparr>))))"
    by (rule on_timeouts_lower)
  with True g show ?thesis by (simp add: timeout_sweep_def)
qed

lemma maintenance_sweep_cache [simp]:
  "cached_lookups (snd (maintenance_sweep c t s)) = cached_lookups s"
  by (simp add: maintenance_sweep_def Let_def split: prod.splits option.splits)

lemma maintenance_sweep_ran:
  "t \<ge> next_maintenance_ts s \<Longrightarrow>
   next_main_loop_call_ts (snd (maintenance_sweep c t s))
     \<le> next_maintenance_ts (snd (maintenance_sweep c t s))"
  by (simp add: maintenance_sweep_def Let_def split: prod.splits option.splits)

lemma maintenance_sweep_upper:
  "next_main_loop_call_ts (snd (maintenance_sweep c t s)) \<le> next_main_loop_call_ts s"
  by (simp add: maintenance_sweep_def Let_def split: prod.splits option.splits)

lemma maintenance_sweep_lower:
  assumes "\<forall>h. 0 \<le> fst (routing_do_maintenance c h)"
    and "now \<le> next_main_loop_call_ts s"
  shows "now \<le> next_main_loop_call_ts (snd (maintenance_sweep c now s))"
proof -
  from assms(1) have "0 \<le> fst (routing_do_maintenance c (trace s))" by blast
  with assms(2) show ?thesis
    by (auto simp: maintenance_sweep_def Let_def split: prod.splits option.splits)
qed

text \<open>
  The experimental queries are the only way for \<^verbatim>\<open>_on_timeout\<close> to fail: with an
  experimental manager that never answers a timeout with queries, \<^verbatim>\<open>main_loop\<close> returns
  a pair.
\<close>

lemma on_timeout_returns:
  "exp_on_timeout c (trace s) rq = [] \<Longrightarrow> \<exists>qs. fst (on_timeout c rq s) = Inr qs"
  by (simp add: on_timeout_def Let_def split_def)

lemma on_timeouts_return:
  assumes "\<forall>h rq. exp_on_timeout c h rq = []"
  shows "\<exists>qs. fst (on_timeouts c tqs acc s) = Inr qs"
proof (induction tqs arbitrary: acc s)
  case Nil
  show ?case by simp
next
  case (Cons q rest)
  from assms have "exp_on_timeout c (trace s) q = []" by blast
  then obtain qs where f: "fst (on_timeout c q s) = Inr qs"
    using on_timeout_returns by blast
  obtain r s' where o: "on_timeout c q s = (r, s')" by (cases "on_timeout c q s") auto
  with f have r: "r = Inr qs" by simp
  from Cons.IH [of "acc @ qs" s'] o r show ?case by simp
qed

lemma main_loop_returns:
  assumes "\<forall>h rq. exp_on_timeout c h rq = []"
  shows "\<exists>next_tick_ts datagrams. fst (main_loop c now s) = Inr (next_tick_ts, datagrams)"
proof (cases "now \<ge> next_main_loop_call_ts s")
  case False
  then show ?thesis by (simp add: main_loop_def)
next
  case True
  let ?s0 = "s\<lparr>next_main_loop_call_ts := now + 1\<rparr>"
  have "\<exists>qs. fst (timeout_sweep c now ?s0) = Inr qs"
    using on_timeouts_return [OF assms] by (simp add: timeout_sweep_def split_def)
  then obtain qs where f: "fst (timeout_sweep c now ?s0) = Inr qs" by blast
  obtain r s1 where o: "timeout_sweep c now ?s0 = (r, s1)"
    by (cases "timeout_sweep c now ?s0") auto
  with f have "r = Inr qs" by simp
  with True o show ?thesis by (simp add: main_loop_def split_def)
qed

text \<open>
  Claim C1 fails on the code. The query of the running lookup has timed out and the
  experimental manager answers the timeout with a query: \<^verbatim>\<open>main_loop\<close> does not return a
  pair, it raises NameError.
\<close>

theorem main_loop_raises_NameError:
  "fst (main_loop probing (21 / 2) searching) = Inl NameError"
  by (simp add: main_loop_def timeout_sweep_def on_timeout_def on_timeout_lookup_def
      register_queries_def probing_def quiet_def searching_eq in_flight_def emit_def Let_def)

text \<open>
  Claim C2, as the code has it. A call of \<^verbatim>\<open>main_loop\<close> that is not rate-limited and
  returns \<open>(next_tick_ts, datagrams)\<close> returns the value of \<^verbatim>\<open>_next_main_loop_call_ts\<close>
  after the call, which is at most \<open>now + 1\<close>. If maintenance was due
  (\<open>next_maintenance_ts \<le> now\<close> before the call), it is at most the new
  \<^verbatim>\<open>_next_maintenance_ts\<close>. It is at least \<open>now\<close> when the routing manager's maintenance
  delay is never negative and the Querier never answers a registration with a deadline
  before \<open>now\<close>. Nothing relates it to \<^verbatim>\<open>_next_timeout_ts\<close>.
\<close>

theorem main_loop_next_tick_bounds:
  assumes "next_main_loop_call_ts s \<le> now"
    and "main_loop c now s = (Inr (next_tick_ts, datagrams), s')"
  shows "next_tick_ts = next_main_loop_call_ts s'
     \<and> next_tick_ts \<le> now + 1
     \<and> (next_maintenance_ts s \<le> now \<longrightarrow> next_tick_ts \<le> next_maintenance_ts s')
     \<and> ((\<forall>h. 0 \<le> fst (routing_do_maintenance c h))
          \<and> (\<forall>h qs. now \<le> fst (querier_register_queries c h qs))
          \<longrightarrow> now \<le> next_tick_ts)"
proof -
  let ?s0 = "s\<lparr>next_main_loop_call_ts := now + 1\<rparr>"
  obtain r s1 where ts: "timeout_sweep c now ?s0 = (r, s1)"
    by (cases "timeout_sweep c now ?s0") auto
  with assms obtain tq where r: "r = Inr tq"
    by (cases r) (auto simp: main_loop_def)
  obtain mq s2 where ms: "maintenance_sweep c now s1 = (mq, s2)"
    by (cases "maintenance_sweep c now s1") auto
  obtain dgs s3 where rq: "register_queries c (tq @ mq) s2 = (dgs, s3)"
    by (cases "register_queries c (tq @ mq) s2") auto
  from assms ts r ms rq have res: "s' = s3" "next_tick_ts = next_main_loop_call_ts s3"
    by (auto simp: main_loop_def)
  have u1: "next_main_loop_call_ts s1 \<le> now + 1"
    using timeout_sweep_upper [of c now ?s0] ts by simp
  have u2: "next_main_loop_call_ts s2 \<le> next_main_loop_call_ts s1"
    using maintenance_sweep_upper [of c now s1] ms by simp
  have u3: "next_main_loop_call_ts s3 \<le> next_main_loop_call_ts s2"
    using register_queries_upper [of c "tq @ mq" s2] rq by simp
  have m1: "next_maintenance_ts s1 = next_maintenance_ts s"
    using timeout_sweep_simps(1) [of c now ?s0] ts by simp
  have m3: "next_maintenance_ts s3 = next_maintenance_ts s2"
    using register_queries_simps(1) [of c "tq @ mq" s2] rq by simp
  have a: "next_tick_ts \<le> now + 1" using res u1 u2 u3 by simp
  have b: "next_maintenance_ts s \<le> now \<longrightarrow> next_tick_ts \<le> next_maintenance_ts s'"
  proof
    assume "next_maintenance_ts s \<le> now"
    with m1 have "now \<ge> next_maintenance_ts s1" by simp
    then have "next_main_loop_call_ts (snd (maintenance_sweep c now s1))
                 \<le> next_maintenance_ts (snd (maintenance_sweep c now s1))"
      by (rule maintenance_sweep_ran)
    with ms have "next_main_loop_call_ts s2 \<le> next_maintenance_ts s2" by simp
    with u3 m3 res show "next_tick_ts \<le> next_maintenance_ts s'" by simp
  qed
  have d: "(\<forall>h. 0 \<le> fst (routing_do_maintenance c h))
          \<and> (\<forall>h qs. now \<le> fst (querier_register_queries c h qs))
          \<longrightarrow> now \<le> next_tick_ts"
  proof
    assume h: "(\<forall>h. 0 \<le> fst (routing_do_maintenance c h))
          \<and> (\<forall>h qs. now \<le> fst (querier_register_queries c h qs))"
    then have hq: "\<forall>h qs. now \<le> fst (querier_register_queries c h qs)"
      and hm: "\<forall>h. 0 \<le> fst (routing_do_maintenance c h)" by blast+
    have "now \<le> next_main_loop_call_ts ?s0" by simp
    with hq have "now \<le> next_main_loop_call_ts (snd (timeout_sweep c now ?s0))"
      by (rule timeout_sweep_lower)
    with ts have "now \<le> next_main_loop_call_ts s1" by simp
    with hm have "now \<le> next_main_loop_call_ts (snd (maintenance_sweep c now s1))"
      by (rule maintenance_sweep_lower)
    with ms have "now \<le> next_main_loop_call_ts s2" by simp
    with hq have "now \<le> next_main_loop_call_ts (snd (register_queries c (tq @ mq) s2))"
      by (rule register_queries_lower)
    with rq res show "now \<le> next_tick_ts" by simp
  qed
  from res a b d show ?thesis by blast
qed

text \<open>
  The first heartbeat of the searching Controller, at time 9.5: both sweeps run, and the
  next heartbeat is due at 10.5.
\<close>

theorem main_loop_next_tick_bounds_witness:
  "next_main_loop_call_ts searching \<le> 19 / 2
   \<and> fst (main_loop pending (19 / 2) searching) = Inr (21 / 2, [])
   \<and> next_maintenance_ts searching \<le> 19 / 2
   \<and> (\<forall>h. 0 \<le> fst (routing_do_maintenance pending h))
   \<and> (\<forall>h qs. 19 / 2 \<le> fst (querier_register_queries pending h qs))
   \<and> (21 / 2 :: real) = next_main_loop_call_ts (snd (main_loop pending (19 / 2) searching))
   \<and> (21 / 2 :: real) \<le> 19 / 2 + 1
   \<and> 21 / 2 \<le> next_maintenance_ts (snd (main_loop pending (19 / 2) searching))
   \<and> (19 / 2 :: real) \<le> 21 / 2"
proof -
  let ?s' = "snd (main_loop pending (19 / 2) searching)"
  have h1: "next_main_loop_call_ts searching \<le> 19 / 2" by (simp add: searching_eq)
  have f: "fst (main_loop pending (19 / 2) searching) = Inr (21 / 2, [])"
    by (simp add: main_loop_def timeout_sweep_def maintenance_sweep_def
        register_queries_def pending_def quiet_def searching_eq emit_def Let_def)
  then have h2: "main_loop pending (19 / 2) searching = (Inr (21 / 2, []), ?s')"
    by (simp add: prod_eq_iff)
  have h3: "next_maintenance_ts searching \<le> 19 / 2" by (simp add: searching_eq)
  have h4: "\<forall>h. 0 \<le> fst (routing_do_maintenance pending h)"
    and h5: "\<forall>h qs. 19 / 2 \<le> fst (querier_register_queries pending h qs)"
    by (simp_all add: pending_def quiet_def)
  from main_loop_next_tick_bounds [OF h1 h2] h3 h4 h5
  have "(21 / 2 :: real) = next_main_loop_call_ts ?s'
     \<and> (21 / 2 :: real) \<le> 19 / 2 + 1
     \<and> 21 / 2 \<le> next_maintenance_ts ?s'
     \<and> (19 / 2 :: real) \<le> 21 / 2"
    by blast
  with h1 f h3 h4 h5 show ?thesis by simp
qed

text \<open>
  Claim C2 as stated fails. At time 9.5 the timeout sweep learns from the Querier that
  the deadline of the query in flight, 10, is the next one, and the heartbeat still
  asks to be called again at 10.5 only.
\<close>

theorem main_loop_next_tick_counterexample:
  "next_main_loop_call_ts searching \<le> 19 / 2
   \<and> fst (main_loop pending (19 / 2) searching) = Inr (21 / 2, [])
   \<and> next_timeout_ts (snd (main_loop pending (19 / 2) searching)) = 10
   \<and> next_maintenance_ts (snd (main_loop pending (19 / 2) searching)) = 39 / 2
   \<and> \<not> (21 / 2 \<le> min 10 (39 / 2 :: real))"
  by (simp add: main_loop_def timeout_sweep_def maintenance_sweep_def
      register_queries_def pending_def quiet_def searching_eq emit_def Let_def)

lemma main_loop_cache [simp]:
  "cached_lookups (snd (main_loop c now s)) = cached_lookups s"
proof (cases "now \<ge> next_main_loop_call_ts s")
  case False
  then show ?thesis by (simp add: main_loop_def)
next
  case True
  let ?s0 = "s\<lparr>next_main_loop_call_ts := now + 1\<rparr>"
  have "cached_lookups (snd (timeout_sweep c now ?s0)) = cached_lookups s" by simp
  with True show ?thesis
    by (cases "timeout_sweep c now ?s0")
       (auto simp: main_loop_def Let_def split_def split: sum.splits)
qed

section \<open>Inbound datagrams\<close>

text \<open>
  Claim C6. A QUERY whose source id is the local id is dropped: the Controller returns
  its next heartbeat time and no datagram, and its state, trace included, is what it
  was. So no collaborator and no handler was called, and neither the cache nor a
  timestamp changed.
\<close>

theorem on_datagram_received_from_myself:
  assumes "incoming_msg c dg = Some m" and "mtype m = QUERY"
    and "node_id (src_node m) = my_id s"
  shows "on_datagram_received c now dg s = ((next_main_loop_call_ts s, []), s)"
  using assms by (simp add: on_datagram_received_def)

text \<open>The strange query arrives at a node whose own id is that of the sender.\<close>

theorem on_datagram_received_from_myself_witness:
  "incoming_msg (pinging 3) inbound = Some strange_query \<and> mtype strange_query = QUERY
   \<and> node_id (src_node strange_query) = my_id (init 0 5)
   \<and> on_datagram_received (pinging 3) 3 inbound (init 0 5) = ((0, []), init 0 5)"
proof -
  have h: "incoming_msg (pinging 3) inbound = Some strange_query" "mtype strange_query = QUERY"
    "node_id (src_node strange_query) = my_id (init 0 5)"
    by (simp_all add: pinging_def listening_def quiet_def strange_query_def remote_def init_def)
  from on_datagram_received_from_myself [OF h, of 3]
  have "on_datagram_received (pinging 3) 3 inbound (init 0 5) = ((0, []), init 0 5)"
    by (simp add: init_def)
  with h show ?thesis by simp
qed

text \<open>
  Claim C7. A RESPONSE or an ERROR for which the Querier finds no related query is
  dropped: the Controller returns its next heartbeat time and no datagram; the only
  event is the question to the Querier, and the Controller's fields keep their values.
\<close>

theorem on_datagram_received_unmatched:
  assumes "incoming_msg c dg = Some m" and "mtype m = RESPONSE \<or> mtype m = ERROR"
    and "querier_get_related_query c (trace s) m = None"
  shows "on_datagram_received c now dg s =
           ((next_main_loop_call_ts s, []), s\<lparr>trace := trace s @ [QuerierGetRelatedQuery m]\<rparr>)"
  using assms by (auto simp: on_datagram_received_def emit_def)

text \<open>Scenario S4 of the specification.\<close>

theorem on_datagram_received_unmatched_witness:
  "incoming_msg (unsolicited 3) inbound = Some response \<and> mtype response = RESPONSE
   \<and> querier_get_related_query (unsolicited 3) (trace (init 0 1)) response = None
   \<and> on_datagram_received (unsolicited 3) 3 inbound (init 0 1) =
       ((0, []), (init 0 1)\<lparr>trace := [QuerierGetRelatedQuery response]\<rparr>)"
proof -
  have h1: "incoming_msg (unsolicited 3) inbound = Some response"
    and h2: "mtype response = RESPONSE \<or> mtype response = ERROR"
    and h3: "querier_get_related_query (unsolicited 3) (trace (init 0 1)) response = None"
    by (simp_all add: unsolicited_def quiet_def response_def)
  from on_datagram_received_unmatched [OF h1 h2 h3, of 3]
  have "on_datagram_received (unsolicited 3) 3 inbound (init 0 1) =
       ((0, []), (init 0 1)\<lparr>trace := [QuerierGetRelatedQuery response]\<rparr>)"
    by (simp add: init_def)
  with h1 h3 show ?thesis by (simp add: response_def)
qed

lemma on_response_lookup_order:
  assumes r: "lookup_on_response_received c (trace s) lo m (src_node m) = (qs, peers, n, done)"
    and ne: "peers \<noteq> []"
  shows "\<exists>post. trace (snd (on_response_lookup c now m lo s)) =
           trace s @ [LookupOnResponseReceived lo m (src_node m)]
             @ (if qs = [] then [] else [QuerierRegisterQueries qs])
             @ [CacheAdd (info_hash lo) peers]
             @ (if usable (callback_f lo)
                then [Callback (callback_f lo) (lookup_id lo) (Some peers) (Some (src_node m))]
                else [])
             @ post"
    and "cached_lookups (snd (on_response_lookup c now m lo s)) =
           extend_or_append now (info_hash lo) peers
             (clean_up_old (now - CACHE_VALID_PERIOD) (cached_lookups s))"
proof -
  let ?s0 = "emit (LookupOnResponseReceived lo m (src_node m)) s"
  obtain dgs s1 where reg: "register_queries c qs ?s0 = (dgs, s1)"
    by (cases "register_queries c qs ?s0") auto
  have t1: "trace s1 = trace s @ [LookupOnResponseReceived lo m (src_node m)]
             @ (if qs = [] then [] else [QuerierRegisterQueries qs])"
    using register_queries_simps(3) [of c qs ?s0] reg by simp
  have c1: "cached_lookups s1 = cached_lookups s"
    using register_queries_simps(2) [of c qs ?s0] reg by simp
  let ?s2 = "call_if_callable (callback_f lo) (lookup_id lo) (Some peers) (Some (src_node m))
               (add_cache_peers now (info_hash lo) peers s1)"
  have t2: "trace ?s2 = trace s1 @ [CacheAdd (info_hash lo) peers]
             @ (if usable (callback_f lo)
                then [Callback (callback_f lo) (lookup_id lo) (Some peers) (Some (src_node m))]
                else [])"
    by simp
  have c2: "cached_lookups ?s2 = extend_or_append now (info_hash lo) peers
             (clean_up_old (now - CACHE_VALID_PERIOD) (cached_lookups s))"
    using c1 by simp
  let ?s2' = "call_if_callable (callback_f lo) (lookup_id lo) None (Some (src_node m)) ?s2"
  obtain aq s3 where an: "announce c lo ?s2' = (aq, s3)"
    by (cases "announce c lo ?s2'") auto
  obtain ad s4 where reg2: "register_queries c aq s3 = (ad, s4)"
    by (cases "register_queries c aq s3") auto
  have t3: "trace s3 = trace ?s2' @ [LookupAnnounce lo]"
    using announce_simps(4) [of c lo ?s2'] an by simp
  have c3: "cached_lookups s3 = cached_lookups ?s2"
    using announce_simps(3) [of c lo ?s2'] an by simp
  have t4: "trace s4 = trace s3 @ (if aq = [] then [] else [QuerierRegisterQueries aq])"
    using register_queries_simps(3) [of c aq s3] reg2 by simp
  have c4: "cached_lookups s4 = cached_lookups s3"
    using register_queries_simps(2) [of c aq s3] reg2 by simp
  have res: "snd (on_response_lookup c now m lo s) = (if done then s4 else ?s2)"
    using r ne reg an reg2 by (simp add: on_response_lookup_def Let_def)
  show "\<exists>post. trace (snd (on_response_lookup c now m lo s)) =
           trace s @ [LookupOnResponseReceived lo m (src_node m)]
             @ (if qs = [] then [] else [QuerierRegisterQueries qs])
             @ [CacheAdd (info_hash lo) peers]
             @ (if usable (callback_f lo)
                then [Callback (callback_f lo) (lookup_id lo) (Some peers) (Some (src_node m))]
                else [])
             @ post"
  proof (cases "done")
    case False
    with res t2 t1 show ?thesis by simp
  next
    case True
    with res t4 t3 t2 t1 show ?thesis by simp
  qed
  show "cached_lookups (snd (on_response_lookup c now m lo s)) =
           extend_or_append now (info_hash lo) peers
             (clean_up_old (now - CACHE_VALID_PERIOD) (cached_lookups s))"
    using res c4 c3 c2 by simp
qed

lemma on_response_after_lookup:
  assumes "lookup_obj rq = Some lo"
  shows "\<exists>post. trace (snd (on_response c now m rq s)) =
            trace (snd (on_response_lookup c now m lo (emit (ExpOnResponseReceived m rq) s))) @ post"
    and "cached_lookups (snd (on_response c now m rq s)) =
            cached_lookups (snd (on_response_lookup c now m lo (emit (ExpOnResponseReceived m rq) s)))"
  using assms by (simp_all add: on_response_def Let_def split: prod.splits)



text \<open>
  Claim C9, as the code has it. For a QUERY from another node that the responder does
  not answer, no response datagram is sent. What is returned are the datagrams of the
  registration of the routing manager's maintenance queries, then those of the
  experimental manager's queries; when neither manager has a query, nothing is
  returned.
\<close>

theorem on_query_without_response:
  assumes "incoming_msg c dg = Some m" and "mtype m = QUERY"
    and "node_id (src_node m) \<noteq> my_id s"
    and "responder_get_response c (trace s @ [ExpOnQueryReceived m]) m = None"
  shows "let h = trace s @ [ExpOnQueryReceived m, ResponderGetResponse m];
             mq = routing_on_query_received c h (src_node m);
             eq = exp_on_query_received c (trace s) m;
             h1 = h @ [RoutingOnQueryReceived (src_node m)];
             d1 = (if mq = [] then [] else snd (querier_register_queries c h1 mq));
             h2 = h1 @ (if mq = [] then [] else [QuerierRegisterQueries mq]);
             d2 = (if eq = [] then [] else snd (querier_register_queries c h2 eq))
         in snd (fst (on_datagram_received c now dg s)) = map Dgram (d1 @ d2)
          \<and> (mq = [] \<and> eq = [] \<longrightarrow> snd (fst (on_datagram_received c now dg s)) = [])"
  using assms by (simp add: on_datagram_received_def on_query_def Let_def)

text \<open>The strange query arrives at a node whose managers have no query to send.\<close>

theorem on_query_without_response_witness:
  "incoming_msg (listening 3) inbound = Some strange_query \<and> mtype strange_query = QUERY
   \<and> node_id (src_node strange_query) \<noteq> my_id (init 0 1)
   \<and> responder_get_response (listening 3) (trace (init 0 1) @ [ExpOnQueryReceived strange_query])
        strange_query = None
   \<and> routing_on_query_received (listening 3)
        (trace (init 0 1) @ [ExpOnQueryReceived strange_query, ResponderGetResponse strange_query])
        (src_node strange_query) = []
   \<and> exp_on_query_received (listening 3) (trace (init 0 1)) strange_query = []
   \<and> snd (fst (on_datagram_received (listening 3) 3 inbound (init 0 1))) = []"
proof -
  have h1: "incoming_msg (listening 3) inbound = Some strange_query"
    and h2: "mtype strange_query = QUERY"
    and h3: "node_id (src_node strange_query) \<noteq> my_id (init 0 1)"
    and h4: "responder_get_response (listening 3)
               (trace (init 0 1) @ [ExpOnQueryReceived strange_query]) strange_query = None"
    and h5: "routing_on_query_received (listening 3)
        (trace (init 0 1) @ [ExpOnQueryReceived strange_query, ResponderGetResponse strange_query])
        (src_node strange_query) = []"
    and h6: "exp_on_query_received (listening 3) (trace (init 0 1)) strange_query = []"
    by (simp_all add: listening_def quiet_def strange_query_def remote_def init_def)
  from on_query_without_response [OF h1 h2 h3 h4, of 3] h5 h6
  have "snd (fst (on_datagram_received (listening 3) 3 inbound (init 0 1))) = []"
    by (simp add: Let_def)
  with h1 h2 h3 h4 h5 h6 show ?thesis by simp
qed

text \<open>
  Claim C9 as stated fails. The responder has no answer to the strange query, but the
  routing manager pings its sender, and the ping is returned for sending.
\<close>

theorem on_query_without_response_counterexample:
  "incoming_msg (pinging 3) inbound = Some strange_query \<and> mtype strange_query = QUERY
   \<and> node_id (src_node strange_query) = 5 \<and> my_id (init 0 1) = 1
   \<and> responder_get_response (pinging 3) (trace (init 0 1) @ [ExpOnQueryReceived strange_query])
        strange_query = None
   \<and> fst (on_datagram_received (pinging 3) 3 inbound (init 0 1))
        = (0, [Dgram (Datagram ''ping'' (9, 6881))])"
  by (simp add: on_datagram_received_def on_query_def send_plugin_queries_def
      register_queries_def pinging_def listening_def quiet_def strange_query_def remote_def
      init_def emit_def serialise_def Let_def)

section \<open>No cached batch is ever empty\<close>

lemma cache_batches_nonempty_cong:
  "cached_lookups s' = cached_lookups s \<Longrightarrow> cache_batches_nonempty s' = cache_batches_nonempty s"
  by (simp add: cache_batches_nonempty_def)

lemma start_lookup_nonempty:
  assumes "cache_batches_nonempty s"
  shows "cache_batches_nonempty (snd (start_lookup c now lid ih cb port s))"
proof -
  let ?lo = "lookup_m_get_peers c (trace s) lid ih cb port"
  let ?s1 = "emit (LookupMGetPeers lid ih cb port) s"
  let ?d = "distance_log c (info_hash ?lo) (my_id ?s1)"
  let ?s2 = "emit (RoutingGetClosestRnodes ?d 0 True) ?s1"
  let ?peers = "tracker_get c (trace ?s2) (info_hash ?lo)"
  let ?s3 = "emit (TrackerGet (info_hash ?lo)) ?s2"
  have c3: "cache_batches_nonempty ?s3"
    using assms by (simp add: cache_batches_nonempty_def)
  show ?thesis
  proof (cases "?peers = []")
    case True
    with c3 show ?thesis
      by (simp add: start_lookup_def Let_def cache_batches_nonempty_def)
  next
    case False
    from False c3 have "cache_batches_nonempty (add_cache_peers now (info_hash ?lo) ?peers ?s3)"
      by (rule add_cache_peers_nonempty)
    with False show ?thesis
      by (simp add: start_lookup_def Let_def cache_batches_nonempty_def)
  qed
qed

lemma on_response_lookup_nonempty:
  assumes "cache_batches_nonempty s"
  shows "cache_batches_nonempty (snd (on_response_lookup c now m lo s))"
proof -
  obtain qs peers n d where
    r: "lookup_on_response_received c (trace s) lo m (src_node m) = (qs, peers, n, d)"
    by (cases "lookup_on_response_received c (trace s) lo m (src_node m)") auto
  show ?thesis
  proof (cases "peers = []")
    case True
    with r assms show ?thesis
      by (simp add: on_response_lookup_def Let_def split_def cache_batches_nonempty_def)
  next
    case False
    from False assms have "cache_batches_nonempty (add_cache_peers now (info_hash lo) peers s)"
      by (rule add_cache_peers_nonempty)
    with on_response_lookup_order(2) [OF r False, of now] show ?thesis
      by (simp add: cache_batches_nonempty_def)
  qed
qed

lemma on_error_lookup_cache [simp]:
  "cached_lookups (snd (on_error_lookup c dg m lo s)) = cached_lookups s"
  by (simp add: on_error_lookup_def Let_def split_def)

lemma on_datagram_received_nonempty:
  assumes "cache_batches_nonempty s"
  shows "cache_batches_nonempty (snd (on_datagram_received c now dg s))"
proof -
  have q: "\<And>m. cache_batches_nonempty (snd (on_query c dg m s))"
    using assms by (simp add: on_query_def Let_def cache_batches_nonempty_def)
  have e: "\<And>m rq (s'::controller). cached_lookups s' = cached_lookups s \<Longrightarrow>
             cache_batches_nonempty (snd (on_error c dg m rq s'))"
    using assms
    by (simp add: on_error_def Let_def split_def cache_batches_nonempty_def
        split: option.splits)
  have r: "\<And>m rq (s'::controller). cached_lookups s' = cached_lookups s \<Longrightarrow>
             cache_batches_nonempty (snd (on_response c now m rq s'))"
  proof -
    fix m rq and s' :: controller
    assume "cached_lookups s' = cached_lookups s"
    with assms have i: "cache_batches_nonempty (emit (ExpOnResponseReceived m rq) s')"
      by (simp add: cache_batches_nonempty_def)
    show "cache_batches_nonempty (snd (on_response c now m rq s'))"
    proof (cases "lookup_obj rq")
      case None
      with i show ?thesis
        by (simp add: on_response_def Let_def cache_batches_nonempty_def)
    next
      case (Some lo)
      from i have "cache_batches_nonempty
                     (snd (on_response_lookup c now m lo (emit (ExpOnResponseReceived m rq) s')))"
        by (rule on_response_lookup_nonempty)
      with on_response_after_lookup(2) [OF Some, of c now m s'] show ?thesis
        by (simp add: cache_batches_nonempty_def)
    qed
  qed
  have d: "\<And>ev. cache_batches_nonempty (emit ev s)"
    using assms by (simp add: cache_batches_nonempty_def)
  show ?thesis
    using assms q e r d
    by (simp add: on_datagram_received_def split: option.splits msg_type.splits)
qed

text \<open>
  The three entry points keep the cache free of empty batches, and \<^verbatim>\<open>__init__\<close>
  establishes it: the condition holds whenever the Controller is entered.
\<close>

theorem cache_batches_nonempty_invariant:
  "cache_batches_nonempty (init t ident)"
  "cache_batches_nonempty s \<Longrightarrow>
     cache_batches_nonempty (snd (get_peers c now lid ih cb port use_cache s))"
  "cache_batches_nonempty s \<Longrightarrow> cache_batches_nonempty (snd (main_loop c now s))"
  "cache_batches_nonempty s \<Longrightarrow> cache_batches_nonempty (snd (on_datagram_received c now dg s))"
proof -
  show "cache_batches_nonempty (init t ident)" by (rule cache_batches_nonempty_init)
next
  assume a: "cache_batches_nonempty s"
  from a have "cache_batches_nonempty (snd (start_lookup c now lid ih cb port s))"
    by (rule start_lookup_nonempty)
  with a show "cache_batches_nonempty (snd (get_peers c now lid ih cb port use_cache s))"
    by (simp add: get_peers_def cache_batches_nonempty_def)
next
  assume "cache_batches_nonempty s"
  then show "cache_batches_nonempty (snd (main_loop c now s))"
    by (simp add: cache_batches_nonempty_def)
next
  assume "cache_batches_nonempty s"
  then show "cache_batches_nonempty (snd (on_datagram_received c now dg s))"
    by (rule on_datagram_received_nonempty)
qed

end
